theory Spec2Isabelle
  imports Main "HOL-Library.Word"
begin

section \<open>Data model (supervisor.go, lines 39-51)\<close>

text \<open>
  \<open>time.Duration\<close> is an \<open>int64\<close> count of nanoseconds: arithmetic on it wraps
  around, \<open>sint\<close> reads it as a signed number.
\<close>

type_synonym duration = "64 word"

definition Nanosecond :: duration where
  "Nanosecond = 1"

definition Millisecond :: duration where
  "Millisecond = 1000000 * Nanosecond"

definition Second :: duration where
  "Second = 1000 * Millisecond"

text \<open>
  A \<open>*log.Logger\<close> that is not nil: the process-wide logger returned by
  \<open>log.Default()\<close>, or one the caller made with \<open>log.New\<close>. The nil pointer is
  \<open>None\<close> in the record below.
\<close>

datatype logger = StdLogger | UserLogger nat

record Config =
  MinBackoff :: duration
  MaxBackoff :: duration
  Logger :: "logger option"

definition DefaultConfig :: Config where
  "DefaultConfig =
     \<lparr>MinBackoff = 1 * Second, MaxBackoff = 30 * Second, Logger = Some StdLogger\<rparr>"

section \<open>Defaulting of the configuration (Start, lines 59-67)\<close>

text \<open>
  The three \<open>if\<close> statements at the head of \<open>Start\<close>, in their order, each one
  updating the local copy \<open>cfg\<close>.
\<close>

definition resolve :: "Config \<Rightarrow> Config" where
  "resolve cfg =
     (let cfg1 = (if MinBackoff cfg = 0 then cfg\<lparr>MinBackoff := 1 * Second\<rparr> else cfg);
          cfg2 = (if MaxBackoff cfg1 = 0 then cfg1\<lparr>MaxBackoff := 30 * Second\<rparr> else cfg1);
          cfg3 = (if Logger cfg2 = None then cfg2\<lparr>Logger := Some StdLogger\<rparr> else cfg2)
      in cfg3)"

section \<open>The backoff advance (Start, line 94)\<close>

text \<open>
  Line 94 is
  \<^verbatim>\<open>backoff = time.Duration(math.Min(float64(backoff*2), float64(cfg.MaxBackoff)))\<close>.
  The product \<open>backoff*2\<close> is an \<open>int64\<close> product and wraps. Both operands are then
  converted to \<open>float64\<close>, compared there, and the smaller one is converted back.

  Every \<open>float64\<close> that arises is the conversion of an \<open>int64\<close>, hence finite and
  integral, of magnitude at most \<open>2 ^ 63\<close>; it is represented by its exact value, an
  \<open>int\<close>. A \<open>float64\<close> carries 53 significant bits, so the conversion of an integer of
  more bits drops the low ones, rounding to nearest, ties to even.
\<close>

type_synonym float64 = int

text \<open>The number of low-order bits of \<open>m \<ge> 0\<close> that do not fit in 53 bits.\<close>

function f64_exp :: "int \<Rightarrow> nat" where
  "f64_exp m = (if m < 2 ^ 53 then 0 else Suc (f64_exp (m div 2)))"
  by pat_completeness auto
termination
  by (relation "measure nat") auto

declare f64_exp.simps [simp del]

definition round_f64 :: "int \<Rightarrow> float64" where
  "round_f64 i =
     (let m = \<bar>i\<bar>;
          e = f64_exp m;
          q = m div 2 ^ e;
          r = m mod 2 ^ e;
          q' = (if 2 ^ e < 2 * r \<or> (2 * r = 2 ^ e \<and> odd q) then q + 1 else q)
      in sgn i * (q' * 2 ^ e))"

definition float64_of_duration :: "duration \<Rightarrow> float64" where
  "float64_of_duration d = round_f64 (sint d)"

text \<open>
  \<open>math.Min\<close> on two finite numbers, neither of them a negative zero (the conversion of
  an integer never is one): the function's last two statements.
\<close>

definition math_Min :: "float64 \<Rightarrow> float64 \<Rightarrow> float64" where
  "math_Min x y = (if x < y then x else y)"

text \<open>
  The conversion back truncates towards zero, which changes nothing on an integral
  value. Go leaves the result open when the value does not fit the \<open>int64\<close> (here it can
  only be \<open>2 ^ 63\<close>): amd64 gives the smallest \<open>int64\<close>, arm64 the largest. The
  platform's answer is the parameter \<open>ovf\<close>.
\<close>

definition duration_of_float64 :: "duration \<Rightarrow> float64 \<Rightarrow> duration" where
  "duration_of_float64 ovf f =
     (if - (2 ^ 63) \<le> f \<and> f < 2 ^ 63 then word_of_int f else ovf)"

definition next_backoff :: "duration \<Rightarrow> duration \<Rightarrow> duration \<Rightarrow> duration" where
  "next_backoff ovf b maxb =
     duration_of_float64 ovf
       (math_Min (float64_of_duration (b * 2)) (float64_of_duration maxb))"

section \<open>The worker, the context and the clock\<close>

text \<open>
  A value of type \<open>any\<close>: nil, or something that \<open>%v\<close> prints. A call of a Go function
  ends by returning or by panicking with such a value.
\<close>

datatype any = Nil | PanicNilError | Val string

datatype call_result = Returned | Panicked any

text \<open>
  What the loop cannot see from inside: the instant (in nanoseconds on the loop's clock)
  at which the caller cancels \<open>ctx\<close>, if ever; how the \<open>k\<close>-th call of \<open>worker(ctx)\<close>
  ends and how long it runs, \<open>None\<close> when it never comes back; and the platform's
  answer to an out-of-range conversion.
\<close>

record world =
  cancel_at :: "int option"
  worker :: "nat \<Rightarrow> (call_result \<times> nat) option"
  conv_overflow :: duration

text \<open>\<open>case <-ctx.Done()\<close> is ready at instant \<open>t\<close> when the context was cancelled by then.\<close>

definition done_closed :: "world \<Rightarrow> int \<Rightarrow> bool" where
  "done_closed w t = (case cancel_at w of None \<Rightarrow> False | Some c \<Rightarrow> c \<le> t)"

text \<open>
  \<open>time.Sleep(d)\<close> returns at once when \<open>d\<close> is zero or negative, and otherwise after
  \<open>d\<close>; the clock is ideal, the pause is exactly \<open>d\<close>.
\<close>

definition Sleep :: "duration \<Rightarrow> int \<Rightarrow> int" where
  "Sleep d t = (if 0 < sint d then t + sint d else t)"

datatype log_line = LogStopped | LogCrashed any | LogRestarting duration

section \<open>The protected call (Start, lines 80-88)\<close>

text \<open>
  \<open>recover()\<close>, called by a deferred function: the value it returns and the state of the
  surrounding call afterwards. When the call is panicking, the panic stops and its value
  is returned; since Go 1.21 a \<open>panic(nil)\<close> carries a \<open>*runtime.PanicNilError\<close>, so the
  value is nil only when there was no panic.
\<close>

fun recover :: "call_result \<Rightarrow> any \<times> call_result" where
  "recover Returned = (Nil, Returned)"
| "recover (Panicked v) = (if v = Nil then PanicNilError else v, Returned)"

text \<open>
  The function literal of lines 80-88: \<open>worker(ctx)\<close> has ended as \<open>res\<close>, the deferred
  function runs, and the literal's own call ends as the first component.
\<close>

definition guarded_call :: "call_result \<Rightarrow> log_line list \<Rightarrow> call_result \<times> log_line list" where
  "guarded_call res out =
     (case recover res of
        (r, res') \<Rightarrow> (res', if r \<noteq> Nil then out @ [LogCrashed r] else out))"

section \<open>The supervision loop (Start, lines 69-96)\<close>

record loop_state =
  now :: int
  backoff :: duration
  calls :: nat
  logged :: "log_line list"

definition init_state :: "Config \<Rightarrow> loop_state" where
  "init_state cfg = \<lparr>now = 0, backoff = MinBackoff cfg, calls = 0, logged = []\<rparr>"

text \<open>
  Lines 80-94, one pass through the body of the \<open>for\<close> after the \<open>select\<close>. A panic
  that left the protected call would unwind the goroutine: the pass then ends as
  \<open>Panicked\<close>.
\<close>

definition loop_body :: "world \<Rightarrow> Config \<Rightarrow> loop_state \<Rightarrow> (call_result \<times> loop_state) option" where
  "loop_body w cfg s =
     (case worker w (calls s) of
        None \<Rightarrow> None
      | Some (res, d) \<Rightarrow>
          (case guarded_call res (logged s) of
             (Panicked v, out) \<Rightarrow>
               Some (Panicked v,
                 s\<lparr>now := now s + int d, calls := Suc (calls s), logged := out\<rparr>)
           | (Returned, out) \<Rightarrow>
               Some (Returned,
                 \<lparr>now = Sleep (backoff s) (now s + int d),
                  backoff = next_backoff (conv_overflow w) (backoff s) (MaxBackoff cfg),
                  calls = Suc (calls s),
                  logged = out @ [LogRestarting (backoff s)]\<rparr>)))"

datatype exit = Stopped | Killed any

partial_function (option) supervise ::
  "world \<Rightarrow> Config \<Rightarrow> loop_state \<Rightarrow> (exit \<times> loop_state) option" where
  "supervise w cfg s =
     (if done_closed w (now s)
      then Some (Stopped, s\<lparr>logged := logged s @ [LogStopped]\<rparr>)
      else (case loop_body w cfg s of
              None \<Rightarrow> None
            | Some (Panicked v, s') \<Rightarrow> Some (Killed v, s')
            | Some (Returned, s') \<Rightarrow> supervise w cfg s'))"

declare supervise.simps [code]

text \<open>
  \<open>Start\<close> resolves the configuration and launches the loop; what the launched
  goroutine does is the meaning of \<open>Start\<close> here.
\<close>

definition Start :: "world \<Rightarrow> Config \<Rightarrow> (exit \<times> loop_state) option" where
  "Start w cfg = (let cfg' = resolve cfg in supervise w cfg' (init_state cfg'))"

text \<open>
  The state in which the loop arrives at the top of its \<open>n\<close>-th pass (the first is
  pass 0), \<open>None\<close> when it never gets there.
\<close>

primrec state_at :: "world \<Rightarrow> Config \<Rightarrow> nat \<Rightarrow> loop_state option" where
  "state_at w cfg 0 = Some (init_state cfg)"
| "state_at w cfg (Suc n) =
     (case state_at w cfg n of
        None \<Rightarrow> None
      | Some s \<Rightarrow>
          (if done_closed w (now s) then None
           else (case loop_body w cfg s of
                   Some (Returned, s') \<Rightarrow> Some s'
                 | _ \<Rightarrow> None)))"

section \<open>Scenarios\<close>

text \<open>
  The worker of \<open>TestSupervisorBackoffIncreases\<close>, which panics with \<open>"boom"\<close> on every
  call (here at once), under a context that is never cancelled; and the same worker
  under a context cancelled 5 ms after the loop has started.
\<close>

definition boom_world :: world where
  "boom_world =
     \<lparr>cancel_at = None, worker = (\<lambda>k. Some (Panicked (Val ''boom''), 0)),
      conv_overflow = 0\<rparr>"

definition cancel_world :: world where
  "cancel_world = boom_world\<lparr>cancel_at := Some 5000000\<rparr>"

text \<open>The configuration of \<open>TestSupervisorRestartsOnPanic\<close>.\<close>

definition test_config :: Config where
  "test_config =
     \<lparr>MinBackoff = 10 * Millisecond, MaxBackoff = 50 * Millisecond,
      Logger = Some (UserLogger 0)\<rparr>"

text \<open>
  A floor above the ceiling; both bounds at \<open>2 ^ 53 + 1\<close> ns, some 104 days, the first
  duration that a \<open>float64\<close> cannot hold; a negative floor; both bounds negative.
\<close>

definition inverted_config :: Config where
  "inverted_config =
     \<lparr>MinBackoff = 10 * Second, MaxBackoff = 5 * Second, Logger = Some StdLogger\<rparr>"

definition big_config :: Config where
  "big_config =
     \<lparr>MinBackoff = 9007199254740993, MaxBackoff = 9007199254740993,
      Logger = Some StdLogger\<rparr>"

definition negative_config :: Config where
  "negative_config =
     \<lparr>MinBackoff = - 1 * Second, MaxBackoff = 30 * Second, Logger = None\<rparr>"

definition all_negative_config :: Config where
  "all_negative_config =
     \<lparr>MinBackoff = - 1 * Second, MaxBackoff = - 5 * Second, Logger = None\<rparr>"

section \<open>Rounding to 53 bits\<close>

lemma f64_exp_small: "m < 2 ^ 53 \<Longrightarrow> f64_exp m = 0"
  by (subst f64_exp.simps) simp

lemma f64_exp_big: "\<not> m < 2 ^ 53 \<Longrightarrow> f64_exp m = Suc (f64_exp (m div 2))"
  by (subst f64_exp.simps) simp

lemma f64_exp_quot_less: "m div 2 ^ f64_exp m < 2 ^ 53"
proof (induction m rule: f64_exp.induct)
  case (1 m)
  show ?case
  proof (cases "m < 2 ^ 53")
    case True
    then show ?thesis by (simp add: f64_exp_small)
  next
    case False
    have "m div 2 ^ f64_exp m = (m div 2) div 2 ^ f64_exp (m div 2)"
      using False by (simp add: f64_exp_big zdiv_zmult2_eq)
    then show ?thesis using 1 False by simp
  qed
qed

lemma f64_exp_quot_ge: "2 ^ 53 \<le> m \<Longrightarrow> 2 ^ 52 \<le> m div 2 ^ f64_exp m"
proof (induction m rule: f64_exp.induct)
  case (1 m)
  have big: "\<not> m < 2 ^ 53" using "1.prems" by simp
  have eq: "m div 2 ^ f64_exp m = (m div 2) div 2 ^ f64_exp (m div 2)"
    using big by (simp add: f64_exp_big zdiv_zmult2_eq)
  show ?case
  proof (cases "m div 2 < 2 ^ 53")
    case True
    then have "f64_exp (m div 2) = 0" by (rule f64_exp_small)
    then show ?thesis using eq "1.prems" by simp
  next
    case False
    then show ?thesis using "1.IH" big eq by simp
  qed
qed

lemma f64_exp_pos: "2 ^ 53 \<le> m \<Longrightarrow> 0 < f64_exp m"
  by (simp add: f64_exp_big)

lemma f64_exp_le: "m < 2 ^ (53 + k) \<Longrightarrow> f64_exp m \<le> k"
proof (induction m arbitrary: k rule: f64_exp.induct)
  case (1 m)
  show ?case
  proof (cases "m < 2 ^ 53")
    case True
    then show ?thesis by (simp add: f64_exp_small)
  next
    case False
    then obtain j where k: "k = Suc j"
      using "1.prems" by (cases k) auto
    define X :: int where "X = 2 ^ (53 + j)"
    have "(2::int) ^ (53 + k) = 2 * X" unfolding k X_def by (simp only: add_Suc_right power_Suc)
    then have "m < 2 * X" using "1.prems" by simp
    then have "m div 2 < X" by linarith
    then have "m div 2 < 2 ^ (53 + j)" by (simp add: X_def)
    then have "f64_exp (m div 2) \<le> j" using "1.IH" False by simp
    then show ?thesis using False k by (simp add: f64_exp_big)
  qed
qed

lemma round_f64_exact: "\<bar>i\<bar> \<le> 2 ^ 53 \<Longrightarrow> round_f64 i = i"
proof (cases "\<bar>i\<bar> < 2 ^ 53")
  case True
  then have "f64_exp \<bar>i\<bar> = 0" by (rule f64_exp_small)
  then show ?thesis by (simp add: round_f64_def Let_def mult_sgn_abs)
next
  case False
  assume "\<bar>i\<bar> \<le> 2 ^ 53"
  with False have "i = 2 ^ 53 \<or> i = - (2 ^ 53)" by linarith
  moreover have "round_f64 (2 ^ 53) = 2 ^ 53" by code_simp
  moreover have "round_f64 (- (2 ^ 53)) = - (2 ^ 53)" by code_simp
  ultimately show ?thesis by auto
qed

lemma round_f64_nonneg_ge: 
  assumes "0 \<le> i"
  shows "(i div 2 ^ f64_exp i) * 2 ^ f64_exp i \<le> round_f64 i"
proof (cases "i = 0")
  case True then show ?thesis by (simp add: round_f64_def Let_def f64_exp_small)
next
  case False
  with assms have "sgn i = 1" "\<bar>i\<bar> = i" by simp_all
  then show ?thesis
    by (simp add: round_f64_def Let_def mult_right_mono)
qed

lemma round_f64_big: 
  assumes "2 ^ 53 \<le> i"
  shows "2 ^ 53 \<le> round_f64 i"
proof -
  define e where "e = f64_exp i"
  have e: "0 < e" using assms by (simp add: e_def f64_exp_pos)
  have q: "2 ^ 52 \<le> i div 2 ^ e" using f64_exp_quot_ge [OF assms] by (simp add: e_def)
  have "(2::int) ^ 1 \<le> 2 ^ e" using e by (intro power_increasing) simp_all
  then have "(2::int) ^ 52 * 2 \<le> (i div 2 ^ e) * 2 ^ e"
    using q by (intro mult_mono) simp_all
  moreover have "(i div 2 ^ e) * 2 ^ e \<le> round_f64 i"
    using assms round_f64_nonneg_ge [of i] by (simp add: e_def)
  ultimately show ?thesis by simp
qed

lemma round_f64_minus: "round_f64 (- i) = - round_f64 i"
  by (simp add: round_f64_def Let_def)

lemma round_f64_pos: "0 < i \<Longrightarrow> 0 < round_f64 i"
  using round_f64_exact [of i] round_f64_big [of i] by (cases "i \<le> 2 ^ 53") auto

lemma round_f64_neg: "i < 0 \<Longrightarrow> round_f64 i < 0"
  using round_f64_pos [of "- i"] by (simp add: round_f64_minus)

lemma round_f64_upper:
  assumes "0 \<le> i" "i \<le> 2 ^ 63"
  shows "round_f64 i \<le> 2 ^ 63"
proof (cases "i = 2 ^ 63 \<or> i = 0")
  case True
  moreover have "round_f64 (2 ^ 63) = 2 ^ 63" by code_simp
  moreover have "round_f64 0 = 0" by code_simp
  ultimately show ?thesis by auto
next
  case False
  define e where "e = f64_exp i"
  define q where "q = i div 2 ^ e"
  have "i < 2 ^ (53 + 10)" using assms False by simp
  then have e: "e \<le> 10" unfolding e_def by (rule f64_exp_le)
  have q: "q < 2 ^ 53" unfolding q_def e_def by (rule f64_exp_quot_less)
  have q0: "0 \<le> q" using assms by (simp add: q_def pos_imp_zdiv_nonneg_iff)
  have "(2::int) ^ e \<le> 2 ^ 10" using e by (intro power_increasing) simp_all
  then have "(q + 1) * 2 ^ e \<le> 2 ^ 53 * 2 ^ 10"
    using q q0 by (intro mult_mono) simp_all
  then have up: "(q + 1) * 2 ^ e \<le> 2 ^ 63" by simp
  have "q * 2 ^ e \<le> (q + 1) * 2 ^ e" by (intro mult_right_mono) simp_all
  then have low: "q * 2 ^ e \<le> 2 ^ 63" using up by (rule order_trans)
  have "sgn i = 1" "\<bar>i\<bar> = i" using assms False by simp_all
  then have "round_f64 i = q * 2 ^ e \<or> round_f64 i = (q + 1) * 2 ^ e"
    by (simp add: round_f64_def Let_def e_def [symmetric] q_def [symmetric])
  then show ?thesis using up low by auto
qed

lemma round_f64_range:
  assumes "- (2 ^ 63) \<le> i" "i \<le> 2 ^ 63"
  shows "- (2 ^ 63) \<le> round_f64 i \<and> round_f64 i \<le> 2 ^ 63"
proof (cases "0 \<le> i")
  case True
  then have "0 \<le> round_f64 i" using round_f64_pos [of i] round_f64_exact [of 0] by (cases "i = 0") auto
  then show ?thesis using round_f64_upper [of i] True assms by simp
next
  case False
  then have "round_f64 i < 0" by (simp add: round_f64_neg)
  moreover have "round_f64 (- i) \<le> 2 ^ 63" using round_f64_upper [of "- i"] False assms by simp
  ultimately show ?thesis by (simp add: round_f64_minus)
qed

section \<open>The backoff advance on signed values\<close>

lemma sint64_range: "- (2 ^ 63) \<le> sint (d :: duration) \<and> sint d < 2 ^ 63"
  using sint_ge [of d] sint_lt [of d] by simp

lemma sint_of_int64: "- (2 ^ 63) \<le> f \<Longrightarrow> f < 2 ^ 63 \<Longrightarrow> sint (word_of_int f :: duration) = f"
  by (simp add: sint_sbintrunc' signed_take_bit_int_eq_self)

lemma sint_double:
  assumes "- (2 ^ 62) \<le> sint (b :: duration)" "sint b < 2 ^ 62"
  shows "sint (b * 2) = 2 * sint b"
proof -
  have "b * 2 = word_of_int (sint b * 2)" by simp
  then have "sint (b * 2) = sint (word_of_int (sint b * 2) :: duration)" by (rule arg_cong)
  also have "\<dots> = sint b * 2" using assms by (intro sint_of_int64) simp_all
  finally show ?thesis by simp
qed

lemma math_Min_eq_min: "math_Min x y = min x y"
  by (auto simp: math_Min_def min_def)

lemma duration_of_float64_sint:
  "- (2 ^ 63) \<le> f \<Longrightarrow> f < 2 ^ 63 \<Longrightarrow> sint (duration_of_float64 ovf f) = f"
  by (simp add: duration_of_float64_def sint_of_int64)

lemma float64_of_duration_range:
  "- (2 ^ 63) \<le> float64_of_duration d \<and> float64_of_duration d \<le> 2 ^ 63"
  unfolding float64_of_duration_def
  using sint64_range [of d] by (intro round_f64_range) simp_all

text \<open>The new backoff never lies above the converted ceiling, when that fits.\<close>

lemma next_backoff_le:
  assumes "float64_of_duration mx < 2 ^ 63"
  shows "sint (next_backoff ovf b mx) \<le> float64_of_duration mx"
proof -
  define f where "f = math_Min (float64_of_duration (b * 2)) (float64_of_duration mx)"
  have "f \<le> float64_of_duration mx" by (simp add: f_def math_Min_def)
  moreover have "- (2 ^ 63) \<le> f"
    using float64_of_duration_range [of "b * 2"] float64_of_duration_range [of mx]
    by (simp add: f_def math_Min_def)
  ultimately show ?thesis
    using assms duration_of_float64_sint [of f ovf] by (simp add: next_backoff_def f_def)
qed

lemma next_backoff_exact:
  assumes "\<bar>2 * sint b\<bar> \<le> 2 ^ 53" "\<bar>sint mx\<bar> \<le> 2 ^ 53"
  shows "sint (next_backoff ovf b mx) = min (2 * sint b) (sint mx)"
proof -
  have d: "sint (b * 2) = 2 * sint b" using assms by (intro sint_double) simp_all
  have x: "float64_of_duration (b * 2) = 2 * sint b"
    unfolding float64_of_duration_def d using assms by (intro round_f64_exact) simp
  have y: "float64_of_duration mx = sint mx"
    unfolding float64_of_duration_def using assms by (intro round_f64_exact) simp
  have "- (2 ^ 63) \<le> min (2 * sint b) (sint mx)" "min (2 * sint b) (sint mx) < 2 ^ 63"
    using assms by (simp_all add: abs_le_iff min_less_iff_disj)
  then have "sint (duration_of_float64 ovf (min (2 * sint b) (sint mx))) = min (2 * sint b) (sint mx)"
    by (rule duration_of_float64_sint)
  then show ?thesis by (simp add: next_backoff_def x y math_Min_eq_min)
qed

lemma next_backoff_clamped:
  assumes "0 < sint b" "sint b < 2 ^ 62" "0 < sint mx" "sint mx \<le> 2 ^ 53"
  shows "sint (next_backoff ovf b mx) = min (2 * sint b) (sint mx)"
proof (cases "2 * sint b \<le> 2 ^ 53")
  case True
  then show ?thesis using assms by (intro next_backoff_exact) simp_all
next
  case False
  have d: "sint (b * 2) = 2 * sint b" using assms by (intro sint_double) simp_all
  have "2 ^ 53 \<le> round_f64 (2 * sint b)" using False by (intro round_f64_big) simp
  then have x: "2 ^ 53 \<le> float64_of_duration (b * 2)" by (simp add: float64_of_duration_def d)
  have y: "float64_of_duration mx = sint mx"
    unfolding float64_of_duration_def using assms by (intro round_f64_exact) simp
  have "sint (duration_of_float64 ovf (sint mx)) = sint mx"
    using assms by (intro duration_of_float64_sint) simp_all
  moreover have "math_Min (float64_of_duration (b * 2)) (float64_of_duration mx) = sint mx"
    using x y assms by (simp add: math_Min_eq_min)
  moreover have "min (2 * sint b) (sint mx) = sint mx" using False assms by simp
  ultimately show ?thesis by (simp add: next_backoff_def)
qed

lemma next_backoff_negative:
  assumes "sint mx < 0"
  shows "sint (next_backoff ovf b mx) < 0"
proof -
  have "float64_of_duration mx < 0"
    unfolding float64_of_duration_def using assms by (rule round_f64_neg)
  then show ?thesis using next_backoff_le [of mx ovf b] by simp
qed

section \<open>One pass of the loop, and the whole loop\<close>

lemma guarded_call_returns: "fst (guarded_call res out) = Returned"
  by (cases res) (simp_all add: guarded_call_def)

lemma loop_body_Some:
  assumes "loop_body w cfg s = Some (r, s')"
  shows "r = Returned \<and> (\<exists>res d. worker w (calls s) = Some (res, d)
           \<and> now s' = Sleep (backoff s) (now s + int d)
           \<and> backoff s' = next_backoff (conv_overflow w) (backoff s) (MaxBackoff cfg)
           \<and> calls s' = Suc (calls s)
           \<and> logged s' = snd (guarded_call res (logged s)) @ [LogRestarting (backoff s)])"
proof -
  obtain res d where wk: "worker w (calls s) = Some (res, d)"
    using assms by (auto simp: loop_body_def split: option.splits)
  obtain out where g: "guarded_call res (logged s) = (Returned, out)"
    using guarded_call_returns [of res "logged s"] by (cases "guarded_call res (logged s)") simp
  show ?thesis using assms wk g by (auto simp: loop_body_def)
qed

lemma loop_body_worker:
  assumes "worker w (calls s) = Some (res, d)"
  shows "loop_body w cfg s = Some (Returned,
           \<lparr>now = Sleep (backoff s) (now s + int d),
            backoff = next_backoff (conv_overflow w) (backoff s) (MaxBackoff cfg),
            calls = Suc (calls s),
            logged = snd (guarded_call res (logged s)) @ [LogRestarting (backoff s)]\<rparr>)"
proof -
  obtain out where g: "guarded_call res (logged s) = (Returned, out)"
    using guarded_call_returns [of res "logged s"] by (cases "guarded_call res (logged s)") simp
  show ?thesis using assms g by (simp add: loop_body_def)
qed

lemma supervise_Some_aux:
  assumes "supervise w cfg s = Some y"
  shows "fst y = Stopped \<and> done_closed w (now (snd y)) \<and> logged (snd y) \<noteq> []
       \<and> last (logged (snd y)) = LogStopped"
proof (rule supervise.raw_induct [where P = "\<lambda>w cfg s y. fst y = Stopped
       \<and> done_closed w (now (snd y)) \<and> logged (snd y) \<noteq> []
       \<and> last (logged (snd y)) = LogStopped", OF _ assms])
  fix sup :: "world \<Rightarrow> Config \<Rightarrow> loop_state \<Rightarrow> (exit \<times> loop_state) option"
    and w cfg s y
  assume IH: "\<And>w cfg s y. sup w cfg s = Some y \<Longrightarrow> fst y = Stopped
       \<and> done_closed w (now (snd y)) \<and> logged (snd y) \<noteq> []
       \<and> last (logged (snd y)) = LogStopped"
  assume eq: "(if done_closed w (now s)
      then Some (Stopped, s\<lparr>logged := logged s @ [LogStopped]\<rparr>)
      else case loop_body w cfg s of None \<Rightarrow> None
           | Some (Returned, s') \<Rightarrow> sup w cfg s'
           | Some (Panicked v, s') \<Rightarrow> Some (Killed v, s')) = Some y"
  show "fst y = Stopped \<and> done_closed w (now (snd y)) \<and> logged (snd y) \<noteq> []
       \<and> last (logged (snd y)) = LogStopped"
  proof (cases "done_closed w (now s)")
    case True
    then have "y = (Stopped, s\<lparr>logged := logged s @ [LogStopped]\<rparr>)" using eq by simp
    then show ?thesis using True by simp
  next
    case False
    then obtain r s' where b: "loop_body w cfg s = Some (r, s')"
      using eq by (auto split: option.splits)
    then have "r = Returned" using loop_body_Some by blast
    then have "sup w cfg s' = Some y" using eq False b by simp
    then show ?thesis by (rule IH)
  qed
qed

lemma supervise_never:
  assumes "cancel_at w = None"
  shows "supervise w cfg s = None"
proof (cases "supervise w cfg s")
  case None
  then show ?thesis .
next
  case (Some y)
  then have "done_closed w (now (snd y))" using supervise_Some_aux by blast
  then show ?thesis using assms by (simp add: done_closed_def)
qed

lemma supervise_step:
  assumes "\<not> done_closed w (now s)" "loop_body w cfg s = Some (r, s')"
  shows "supervise w cfg s = supervise w cfg s'"
proof -
  have "r = Returned" using assms(2) loop_body_Some by blast
  then show ?thesis using assms by (subst supervise.simps) simp
qed

lemma supervise_stop:
  assumes "done_closed w (now s)"
  shows "supervise w cfg s = Some (Stopped, s\<lparr>logged := logged s @ [LogStopped]\<rparr>)"
  using assms by (subst supervise.simps) simp

lemma supervise_hang:
  assumes "\<not> done_closed w (now s)" "worker w (calls s) = None"
  shows "supervise w cfg s = None"
  using assms by (subst supervise.simps) (simp add: loop_body_def)

section \<open>The backoff from pass to pass\<close>

lemma state_at_Suc:
  assumes "state_at w cfg (Suc n) = Some s'"
  shows "\<exists>s. state_at w cfg n = Some s \<and> \<not> done_closed w (now s)
           \<and> loop_body w cfg s = Some (Returned, s')"
  using assms
  by (auto split: option.splits if_splits call_result.splits)

lemma state_at_Suc_backoff:
  assumes "state_at w cfg (Suc n) = Some s'"
  shows "\<exists>s. state_at w cfg n = Some s
           \<and> backoff s' = next_backoff (conv_overflow w) (backoff s) (MaxBackoff cfg)"
proof -
  obtain s where s: "state_at w cfg n = Some s" "loop_body w cfg s = Some (Returned, s')"
    using state_at_Suc [OF assms] by blast
  then show ?thesis using loop_body_Some [of w cfg s Returned s'] by auto
qed

lemma state_at_bounds:
  assumes "0 < sint (MinBackoff cfg)" "sint (MinBackoff cfg) \<le> sint (MaxBackoff cfg)"
    and "sint (MaxBackoff cfg) \<le> 2 ^ 53"
    and "state_at w cfg n = Some s"
  shows "sint (MinBackoff cfg) \<le> sint (backoff s) \<and> sint (backoff s) \<le> sint (MaxBackoff cfg)"
  using assms(4)
proof (induction n arbitrary: s)
  case 0
  then show ?case using assms(2) by (auto simp: init_state_def)
next
  case (Suc n)
  then obtain s0 where s0: "state_at w cfg n = Some s0"
    "backoff s = next_backoff (conv_overflow w) (backoff s0) (MaxBackoff cfg)"
    using state_at_Suc_backoff by blast
  have b: "sint (MinBackoff cfg) \<le> sint (backoff s0)" "sint (backoff s0) \<le> sint (MaxBackoff cfg)"
    using Suc.IH [OF s0(1)] by simp_all
  have "sint (backoff s) = min (2 * sint (backoff s0)) (sint (MaxBackoff cfg))"
    unfolding s0(2) using b assms(1-3) by (intro next_backoff_clamped) simp_all
  then show ?case using b assms(1-3) by simp
qed

lemma state_at_grows:
  assumes "0 < sint (MinBackoff cfg)" "sint (MinBackoff cfg) \<le> sint (MaxBackoff cfg)"
    and "sint (MaxBackoff cfg) \<le> 2 ^ 53"
    and "state_at w cfg n = Some s" "state_at w cfg (Suc n) = Some s'"
  shows "sint (backoff s') = min (2 * sint (backoff s)) (sint (MaxBackoff cfg))"
proof -
  obtain s0 where s0: "state_at w cfg n = Some s0"
    "backoff s' = next_backoff (conv_overflow w) (backoff s0) (MaxBackoff cfg)"
    using state_at_Suc_backoff [OF assms(5)] by blast
  have "s0 = s" using s0(1) assms(4) by simp
  have b: "sint (MinBackoff cfg) \<le> sint (backoff s)" "sint (backoff s) \<le> sint (MaxBackoff cfg)"
    using state_at_bounds [OF assms(1-4)] by simp_all
  show ?thesis
    unfolding s0(2) \<open>s0 = s\<close> using b assms(1-3) by (intro next_backoff_clamped) simp_all
qed

lemma state_at_earlier:
  "state_at w cfg (Suc n) = Some s' \<Longrightarrow> \<exists>s. state_at w cfg n = Some s"
  using state_at_Suc by blast

lemma state_at_monotone:
  assumes "0 < sint (MinBackoff cfg)" "sint (MinBackoff cfg) \<le> sint (MaxBackoff cfg)"
    and "sint (MaxBackoff cfg) \<le> 2 ^ 53"
    and "state_at w cfg n = Some s" "state_at w cfg (n + k) = Some s'"
  shows "sint (backoff s) \<le> sint (backoff s')
      \<and> (backoff s = MaxBackoff cfg \<longrightarrow> backoff s' = MaxBackoff cfg)"
  using assms(5)
proof (induction k arbitrary: s')
  case 0
  then show ?case using assms(4) by simp
next
  case (Suc k)
  then have nxt: "state_at w cfg (Suc (n + k)) = Some s'" by simp
  then obtain s1 where s1: "state_at w cfg (n + k) = Some s1"
    using state_at_earlier by blast
  have IH: "sint (backoff s) \<le> sint (backoff s1)"
    "backoff s = MaxBackoff cfg \<longrightarrow> backoff s1 = MaxBackoff cfg"
    using Suc.IH [OF s1] by simp_all
  have b1: "sint (MinBackoff cfg) \<le> sint (backoff s1)" "sint (backoff s1) \<le> sint (MaxBackoff cfg)"
    using state_at_bounds [OF assms(1-3) s1] by simp_all
  have step: "sint (backoff s') = min (2 * sint (backoff s1)) (sint (MaxBackoff cfg))"
    using state_at_grows [OF assms(1-3) s1 nxt] .
  have "sint (backoff s) \<le> sint (backoff s')" using step IH(1) b1 assms(1) by simp
  moreover have "backoff s' = MaxBackoff cfg" if "backoff s = MaxBackoff cfg"
  proof -
    have "backoff s1 = MaxBackoff cfg" using that IH(2) by simp
    then have "sint (backoff s') = sint (MaxBackoff cfg)" using step assms(1,2) by simp
    then show ?thesis by (rule word_eq_iff_signed [THEN iffD2])
  qed
  ultimately show ?case by simp
qed

text \<open>With a ceiling that fits 53 bits, the backoff after an advance never exceeds it.\<close>

lemma float64_of_duration_exact:
  "\<bar>sint d\<bar> \<le> 2 ^ 53 \<Longrightarrow> float64_of_duration d = sint d"
  unfolding float64_of_duration_def by (rule round_f64_exact)

lemma state_at_clamped:
  assumes "0 < sint (MaxBackoff cfg)" and "sint (MaxBackoff cfg) \<le> 2 ^ 53"
    and "state_at w cfg (Suc n) = Some s"
  shows "sint (backoff s) \<le> sint (MaxBackoff cfg)"
proof -
  obtain s0 where "state_at w cfg n = Some s0"
    "backoff s = next_backoff (conv_overflow w) (backoff s0) (MaxBackoff cfg)"
    using state_at_Suc_backoff [OF assms(3)] by blast
  moreover have "float64_of_duration (MaxBackoff cfg) = sint (MaxBackoff cfg)"
    using assms(1,2) by (intro float64_of_duration_exact) simp
  ultimately show ?thesis
    using next_backoff_le [of "MaxBackoff cfg" "conv_overflow w" "backoff s0"] assms(2) by simp
qed

lemma state_at_inverted_eq:
  assumes "0 < sint (MaxBackoff cfg)" and "sint (MaxBackoff cfg) < sint (MinBackoff cfg)"
    and "sint (MaxBackoff cfg) \<le> 2 ^ 53" and "sint (MinBackoff cfg) < 2 ^ 62"
    and "state_at w cfg (Suc n) = Some s"
  shows "backoff s = MaxBackoff cfg"
  using assms(5)
proof (induction n arbitrary: s)
  case 0
  then obtain s0 where s0: "state_at w cfg 0 = Some s0"
    "backoff s = next_backoff (conv_overflow w) (backoff s0) (MaxBackoff cfg)"
    using state_at_Suc_backoff by blast
  then have b0: "backoff s0 = MinBackoff cfg" by (auto simp: init_state_def)
  have "sint (backoff s) = min (2 * sint (MinBackoff cfg)) (sint (MaxBackoff cfg))"
    unfolding s0(2) b0 using assms(1-4) by (intro next_backoff_clamped) simp_all
  then have "sint (backoff s) = sint (MaxBackoff cfg)" using assms(1,2) by simp
  then show ?case by (rule word_eq_iff_signed [THEN iffD2])
next
  case (Suc n)
  then obtain s0 where s0: "state_at w cfg (Suc n) = Some s0"
    "backoff s = next_backoff (conv_overflow w) (backoff s0) (MaxBackoff cfg)"
    using state_at_Suc_backoff by blast
  have b0: "backoff s0 = MaxBackoff cfg" using Suc.IH [OF s0(1)] .
  have "sint (backoff s) = min (2 * sint (MaxBackoff cfg)) (sint (MaxBackoff cfg))"
    unfolding s0(2) b0 using assms(1-3) by (intro next_backoff_clamped) simp_all
  then have "sint (backoff s) = sint (MaxBackoff cfg)" using assms(1) by simp
  then show ?case by (rule word_eq_iff_signed [THEN iffD2])
qed

section \<open>The claims\<close>

subsection \<open>Crash isolation\<close>

text \<open>
  Claim C1. Whatever the worker's call does, the protected call of lines 80-88 ends by
  returning: a panic of the worker is stopped by \<open>recover()\<close> and never leaves the
  function literal. So no pass of the loop ends in a panic, the loop is never killed by
  one, and after a worker that panicked the pass runs to its end and the loop goes on
  with the next pass.
\<close>

theorem panic_contained:
  "fst (guarded_call res out) = Returned
   \<and> loop_body w cfg s \<noteq> Some (Panicked v, t)
   \<and> supervise w cfg s \<noteq> Some (Killed v, t)
   \<and> (worker w (calls s) = Some (Panicked p, d) \<longrightarrow>
        (\<exists>s'. loop_body w cfg s = Some (Returned, s') \<and> calls s' = Suc (calls s)
           \<and> (\<not> done_closed w (now s) \<longrightarrow> supervise w cfg s = supervise w cfg s')))"
proof -
  have a: "fst (guarded_call res out) = Returned" by (rule guarded_call_returns)
  have b: "loop_body w cfg s \<noteq> Some (Panicked v, t)"
    using loop_body_Some [of w cfg s "Panicked v" t] by auto
  have c: "supervise w cfg s \<noteq> Some (Killed v, t)"
    using supervise_Some_aux [of w cfg s "(Killed v, t)"] by auto
  have d: "\<exists>s'. loop_body w cfg s = Some (Returned, s') \<and> calls s' = Suc (calls s)
           \<and> (\<not> done_closed w (now s) \<longrightarrow> supervise w cfg s = supervise w cfg s')"
    if wk: "worker w (calls s) = Some (Panicked p, d)"
  proof -
    obtain s' where s': "loop_body w cfg s = Some (Returned, s')"
      using loop_body_worker [OF wk] by blast
    then have "calls s' = Suc (calls s)" using loop_body_Some by blast
    moreover have "\<not> done_closed w (now s) \<longrightarrow> supervise w cfg s = supervise w cfg s'"
      using supervise_step [of w s cfg Returned s'] s' by blast
    ultimately show ?thesis using s' by blast
  qed
  show ?thesis using a b c d by blast
qed

text \<open>The always-panicking worker, first pass.\<close>

theorem panic_contained_witness:
  "worker boom_world (calls (init_state test_config)) = Some (Panicked (Val ''boom''), 0)
   \<and> (\<exists>s'. loop_body boom_world test_config (init_state test_config) = Some (Returned, s')
          \<and> calls s' = Suc (calls (init_state test_config))
          \<and> supervise boom_world test_config (init_state test_config)
              = supervise boom_world test_config s')"
proof -
  have h: "worker boom_world (calls (init_state test_config)) = Some (Panicked (Val ''boom''), 0)"
    by (simp add: boom_world_def)
  have n: "\<not> done_closed boom_world (now (init_state test_config))"
    by (simp add: boom_world_def done_closed_def)
  show ?thesis
    using h n panic_contained [of Returned "[]" boom_world test_config "init_state test_config"
        Nil "init_state test_config" "Val ''boom''" 0]
    by simp
qed

subsection \<open>The backoff advance\<close>

text \<open>
  Claim C2, amended. The advance of line 94 goes through \<open>float64\<close>. Its result is the
  exact minimum of twice the current backoff and the ceiling whenever both have a
  magnitude of at most \<open>2 ^ 53\<close> ns (about 104 days), where the conversions are exact.
\<close>

theorem next_backoff_is_min:
  assumes "\<bar>2 * sint b\<bar> \<le> 2 ^ 53" and "\<bar>sint maxb\<bar> \<le> 2 ^ 53"
  shows "sint (next_backoff ovf b maxb) = min (2 * sint b) (sint maxb)"
  using assms by (rule next_backoff_exact)

text \<open>From 10 ms under a ceiling of 50 ms the advance gives 20 ms.\<close>

theorem next_backoff_is_min_witness:
  "\<bar>2 * sint (10 * Millisecond)\<bar> \<le> (2 :: int) ^ 53 \<and> \<bar>sint (50 * Millisecond)\<bar> \<le> (2 :: int) ^ 53
   \<and> sint (next_backoff 0 (10 * Millisecond) (50 * Millisecond)) = 20000000"
proof -
  have a: "\<bar>2 * sint (10 * Millisecond)\<bar> \<le> (2 :: int) ^ 53"
    by (simp add: Millisecond_def Nanosecond_def)
  have b: "\<bar>sint (50 * Millisecond)\<bar> \<le> (2 :: int) ^ 53"
    by (simp add: Millisecond_def Nanosecond_def)
  have "sint (next_backoff 0 (10 * Millisecond) (50 * Millisecond))
      = min (2 * sint (10 * Millisecond)) (sint (50 * Millisecond))"
    using a b by (rule next_backoff_is_min)
  then show ?thesis using a b by (simp add: Millisecond_def Nanosecond_def)
qed

text \<open>
  The advance is computed in \<open>float64\<close>: with a current backoff of \<open>2 ^ 53\<close> ns and a
  ceiling of \<open>2 ^ 53 + 1\<close> ns it yields \<open>2 ^ 53\<close>, one less than the exact minimum.
\<close>

theorem next_backoff_float_counterexample:
  "next_backoff 0 9007199254740992 9007199254740993 = 9007199254740992
   \<and> min (2 * sint (9007199254740992 :: duration)) (sint (9007199254740993 :: duration))
       = 9007199254740993"
  by code_simp

subsection \<open>The invariant of the backoff\<close>

text \<open>
  Claim C3, amended. For a configuration with \<open>0 < MinBackoff \<le> MaxBackoff\<close> and
  \<open>MaxBackoff \<le> 2 ^ 53\<close> ns, the current backoff stays between the two bounds: it starts
  at \<open>MinBackoff\<close>, it lies between them at the top of every pass the loop reaches, and
  the advance at the end of a pass keeps it there.
\<close>

theorem backoff_within_bounds:
  assumes "0 < sint (MinBackoff cfg)" and "sint (MinBackoff cfg) \<le> sint (MaxBackoff cfg)"
    and "sint (MaxBackoff cfg) \<le> 2 ^ 53"
  shows "backoff (init_state cfg) = MinBackoff cfg
    \<and> (state_at w cfg n = Some s \<longrightarrow>
         sint (MinBackoff cfg) \<le> sint (backoff s) \<and> sint (backoff s) \<le> sint (MaxBackoff cfg))
    \<and> (sint (MinBackoff cfg) \<le> sint (backoff s) \<and> sint (backoff s) \<le> sint (MaxBackoff cfg)
         \<and> loop_body w cfg s = Some (r, s') \<longrightarrow>
         sint (MinBackoff cfg) \<le> sint (backoff s') \<and> sint (backoff s') \<le> sint (MaxBackoff cfg))"
proof -
  have a: "backoff (init_state cfg) = MinBackoff cfg" by (simp add: init_state_def)
  have b: "sint (MinBackoff cfg) \<le> sint (backoff s) \<and> sint (backoff s) \<le> sint (MaxBackoff cfg)"
    if "state_at w cfg n = Some s"
    using assms that by (rule state_at_bounds)
  have c: "sint (MinBackoff cfg) \<le> sint (backoff s') \<and> sint (backoff s') \<le> sint (MaxBackoff cfg)"
    if inv: "sint (MinBackoff cfg) \<le> sint (backoff s)" "sint (backoff s) \<le> sint (MaxBackoff cfg)"
      and body: "loop_body w cfg s = Some (r, s')"
  proof -
    have eq: "backoff s' = next_backoff (conv_overflow w) (backoff s) (MaxBackoff cfg)"
      using loop_body_Some [OF body] by auto
    have "sint (backoff s') = min (2 * sint (backoff s)) (sint (MaxBackoff cfg))"
      unfolding eq using inv assms by (intro next_backoff_clamped) simp_all
    then show ?thesis using inv assms by simp
  qed
  show ?thesis using a b c by blast
qed

text \<open>The test configuration (10 ms, 50 ms) after three passes: 50 ms.\<close>

theorem backoff_within_bounds_witness:
  "0 < sint (MinBackoff test_config) \<and> sint (MinBackoff test_config) \<le> sint (MaxBackoff test_config)
   \<and> sint (MaxBackoff test_config) \<le> 2 ^ 53
   \<and> map_option backoff (state_at boom_world test_config 3) = Some (50 * Millisecond)
   \<and> map_option (backoff \<circ> snd)
         (loop_body boom_world test_config
            \<lparr>now = 70000000, backoff = 50 * Millisecond, calls = 3, logged = []\<rparr>)
       = Some (50 * Millisecond)
   \<and> sint (MinBackoff test_config) \<le> sint (50 * Millisecond)
   \<and> sint (50 * Millisecond) \<le> sint (MaxBackoff test_config)"
proof -
  have h: "0 < sint (MinBackoff test_config)"
    "sint (MinBackoff test_config) \<le> sint (MaxBackoff test_config)"
    "sint (MaxBackoff test_config) \<le> 2 ^ 53"
    by (simp_all add: test_config_def Millisecond_def Nanosecond_def)
  have st: "state_at boom_world test_config 3
      = Some \<lparr>now = 70000000, backoff = 50 * Millisecond, calls = 3,
          logged = [LogCrashed (Val ''boom''), LogRestarting 10000000,
            LogCrashed (Val ''boom''), LogRestarting 20000000,
            LogCrashed (Val ''boom''), LogRestarting 40000000]\<rparr>"
    by code_simp
  have body: "loop_body boom_world test_config
        \<lparr>now = 70000000, backoff = 50 * Millisecond, calls = 3, logged = []\<rparr>
      = Some (Returned,
          \<lparr>now = 120000000, backoff = 50 * Millisecond, calls = 4,
            logged = [LogCrashed (Val ''boom''), LogRestarting 50000000]\<rparr>)"
    by code_simp
  have inv: "sint (MinBackoff test_config) \<le> sint (50 * Millisecond)"
    "sint (50 * Millisecond) \<le> sint (MaxBackoff test_config)"
    by (simp_all add: test_config_def Millisecond_def Nanosecond_def)
  have at3: "map_option backoff (state_at boom_world test_config 3) = Some (50 * Millisecond)"
    using st by simp
  have "sint (MinBackoff test_config)
        \<le> sint (backoff \<lparr>now = 120000000, backoff = 50 * Millisecond, calls = 4,
            logged = [LogCrashed (Val ''boom''), LogRestarting 50000000]\<rparr>)"
    using inv body
      backoff_within_bounds [OF h, of boom_world 0
        "\<lparr>now = 70000000, backoff = 50 * Millisecond, calls = 3, logged = []\<rparr>" Returned
        "\<lparr>now = 120000000, backoff = 50 * Millisecond, calls = 4,
            logged = [LogCrashed (Val ''boom''), LogRestarting 50000000]\<rparr>"]
    by simp
  then show ?thesis using h at3 body inv by simp
qed

text \<open>
  Without the bound on \<open>MaxBackoff\<close> the invariant fails: with both bounds at
  \<open>2 ^ 53 + 1\<close> ns the first advance rounds the ceiling down to \<open>2 ^ 53\<close> ns, below
  \<open>MinBackoff\<close>.
\<close>

theorem backoff_below_floor_counterexample:
  "0 < sint (MinBackoff big_config)
   \<and> sint (MinBackoff big_config) \<le> sint (MaxBackoff big_config)
   \<and> map_option backoff (state_at boom_world big_config 1) = Some 9007199254740992
   \<and> sint (9007199254740992 :: duration) < sint (MinBackoff big_config)"
  by code_simp

subsection \<open>A floor above the ceiling\<close>

text \<open>
  Claim C4, amended. For a configuration with \<open>0 < MaxBackoff < MinBackoff\<close> and
  \<open>MaxBackoff \<le> 2 ^ 53\<close> ns, the current backoff exceeds \<open>MaxBackoff\<close> on the first pass
  only: the advance clamps, so at the top of every later pass the backoff is at most
  \<open>MaxBackoff\<close>, and equal to it when doubling \<open>MinBackoff\<close> does not overflow.
\<close>

theorem inverted_bounds_first_pass_only:
  assumes "0 < sint (MaxBackoff cfg)" and "sint (MaxBackoff cfg) < sint (MinBackoff cfg)"
    and "sint (MaxBackoff cfg) \<le> 2 ^ 53"
    and "state_at w cfg n = Some s"
  shows "(n = 0 \<longrightarrow> sint (MaxBackoff cfg) < sint (backoff s))
    \<and> (0 < n \<longrightarrow> sint (backoff s) \<le> sint (MaxBackoff cfg))
    \<and> (0 < n \<and> sint (MinBackoff cfg) < 2 ^ 62 \<longrightarrow> backoff s = MaxBackoff cfg)"
proof (cases n)
  case 0
  then show ?thesis using assms(2,4) by (auto simp: init_state_def)
next
  case (Suc m)
  then have st: "state_at w cfg (Suc m) = Some s" using assms(4) by simp
  have "sint (backoff s) \<le> sint (MaxBackoff cfg)"
    using assms(1,3) st by (rule state_at_clamped)
  moreover have "backoff s = MaxBackoff cfg" if "sint (MinBackoff cfg) < 2 ^ 62"
    using assms(1-3) that st by (rule state_at_inverted_eq)
  ultimately show ?thesis using Suc by simp
qed

text \<open>A floor of 10 s above a ceiling of 5 s: at the third pass the backoff is 5 s.\<close>

theorem inverted_bounds_first_pass_only_witness:
  "0 < sint (MaxBackoff inverted_config)
   \<and> sint (MaxBackoff inverted_config) < sint (MinBackoff inverted_config)
   \<and> sint (MaxBackoff inverted_config) \<le> 2 ^ 53
   \<and> map_option backoff (state_at boom_world inverted_config 2) = Some (5 * Second)
   \<and> sint (5 * Second) \<le> sint (MaxBackoff inverted_config)"
proof -
  have h: "0 < sint (MaxBackoff inverted_config)"
    "sint (MaxBackoff inverted_config) < sint (MinBackoff inverted_config)"
    "sint (MaxBackoff inverted_config) \<le> 2 ^ 53"
    by (simp_all add: inverted_config_def Second_def Millisecond_def Nanosecond_def)
  have st: "state_at boom_world inverted_config 2
      = Some \<lparr>now = 15000000000, backoff = 5 * Second, calls = 2,
          logged = [LogCrashed (Val ''boom''), LogRestarting 10000000000,
            LogCrashed (Val ''boom''), LogRestarting 5000000000]\<rparr>"
    by code_simp
  show ?thesis
    using h st inverted_bounds_first_pass_only [OF h st]
    by simp
qed

text \<open>
  The backoff does not stay above the ceiling: with 10 s and 5 s it is already equal to
  \<open>MaxBackoff\<close> at the second pass.
\<close>

theorem inverted_bounds_counterexample:
  "0 < sint (MaxBackoff inverted_config)
   \<and> sint (MaxBackoff inverted_config) < sint (MinBackoff inverted_config)
   \<and> map_option backoff (state_at boom_world inverted_config 1) = Some (MaxBackoff inverted_config)"
  by code_simp

subsection \<open>The sequence of waits\<close>

text \<open>
  Claim C5, amended. For a configuration with \<open>0 < MinBackoff \<le> MaxBackoff\<close> and
  \<open>MaxBackoff \<le> 2 ^ 53\<close> ns, whatever the worker does: the wait of a pass is at most the
  wait of every later pass, no wait exceeds \<open>MaxBackoff\<close>, once the backoff is
  \<open>MaxBackoff\<close> it is \<open>MaxBackoff\<close> on every later pass, and \<open>MaxBackoff\<close> is a fixed
  point of the advance.
\<close>

theorem waits_nondecreasing:
  assumes "0 < sint (MinBackoff cfg)" and "sint (MinBackoff cfg) \<le> sint (MaxBackoff cfg)"
    and "sint (MaxBackoff cfg) \<le> 2 ^ 53"
    and "state_at w cfg n = Some s" and "state_at w cfg (n + k) = Some s'"
  shows "sint (backoff s) \<le> sint (backoff s')
    \<and> sint (backoff s') \<le> sint (MaxBackoff cfg)
    \<and> (backoff s = MaxBackoff cfg \<longrightarrow> backoff s' = MaxBackoff cfg)
    \<and> next_backoff (conv_overflow w) (MaxBackoff cfg) (MaxBackoff cfg) = MaxBackoff cfg"
proof -
  have mono: "sint (backoff s) \<le> sint (backoff s')
      \<and> (backoff s = MaxBackoff cfg \<longrightarrow> backoff s' = MaxBackoff cfg)"
    using assms by (rule state_at_monotone)
  have bound: "sint (backoff s') \<le> sint (MaxBackoff cfg)"
    using state_at_bounds [OF assms(1-3) assms(5)] by simp
  have "sint (next_backoff (conv_overflow w) (MaxBackoff cfg) (MaxBackoff cfg))
      = min (2 * sint (MaxBackoff cfg)) (sint (MaxBackoff cfg))"
    using assms(1-3) by (intro next_backoff_clamped) simp_all
  then have "sint (next_backoff (conv_overflow w) (MaxBackoff cfg) (MaxBackoff cfg))
      = sint (MaxBackoff cfg)"
    using assms(1,2) by simp
  then have fp: "next_backoff (conv_overflow w) (MaxBackoff cfg) (MaxBackoff cfg) = MaxBackoff cfg"
    by (rule word_eq_iff_signed [THEN iffD2])
  show ?thesis using mono bound fp by simp
qed

text \<open>The test configuration: 20 ms at the second pass, 50 ms at the fourth.\<close>

theorem waits_nondecreasing_witness:
  "0 < sint (MinBackoff test_config)
   \<and> sint (MinBackoff test_config) \<le> sint (MaxBackoff test_config)
   \<and> sint (MaxBackoff test_config) \<le> 2 ^ 53
   \<and> map_option backoff (state_at boom_world test_config 1) = Some (20 * Millisecond)
   \<and> map_option backoff (state_at boom_world test_config (1 + 2)) = Some (50 * Millisecond)
   \<and> sint (20 * Millisecond) \<le> sint (50 * Millisecond)
   \<and> next_backoff 0 (50 * Millisecond) (50 * Millisecond) = 50 * Millisecond"
proof -
  have h: "0 < sint (MinBackoff test_config)"
    "sint (MinBackoff test_config) \<le> sint (MaxBackoff test_config)"
    "sint (MaxBackoff test_config) \<le> 2 ^ 53"
    by (simp_all add: test_config_def Millisecond_def Nanosecond_def)
  have s1: "state_at boom_world test_config 1
      = Some \<lparr>now = 10000000, backoff = 20 * Millisecond, calls = 1,
          logged = [LogCrashed (Val ''boom''), LogRestarting 10000000]\<rparr>"
    by code_simp
  have s3: "state_at boom_world test_config (1 + 2)
      = Some \<lparr>now = 70000000, backoff = 50 * Millisecond, calls = 3,
          logged = [LogCrashed (Val ''boom''), LogRestarting 10000000,
            LogCrashed (Val ''boom''), LogRestarting 20000000,
            LogCrashed (Val ''boom''), LogRestarting 40000000]\<rparr>"
    by code_simp
  have c: "conv_overflow boom_world = 0" "MaxBackoff test_config = 50 * Millisecond"
    by (simp_all add: boom_world_def test_config_def)
  show ?thesis
    using h s1 s3 c waits_nondecreasing [OF h s1 s3]
    by simp
qed

text \<open>
  Each of the three conditions is needed. With a floor of 10 s above a ceiling of 5 s the
  waits are 10 s, then 5 s. With both bounds at \<open>2 ^ 53 + 1\<close> ns the second wait is
  \<open>2 ^ 53\<close> ns, less than the first, and the ceiling is not a fixed point. With a floor of
  -1 s the waits are -1 s, then -2 s.
\<close>

theorem waits_decrease_counterexample:
  "map_option backoff (state_at boom_world inverted_config 0) = Some (10 * Second)
   \<and> map_option backoff (state_at boom_world inverted_config 1) = Some (5 * Second)
   \<and> sint (5 * Second) < sint (10 * Second)
   \<and> 0 < sint (MinBackoff big_config)
   \<and> sint (MinBackoff big_config) \<le> sint (MaxBackoff big_config)
   \<and> map_option backoff (state_at boom_world big_config 0) = Some 9007199254740993
   \<and> map_option backoff (state_at boom_world big_config 1) = Some 9007199254740992
   \<and> sint (9007199254740992 :: duration) < sint (9007199254740993 :: duration)
   \<and> next_backoff 0 (MaxBackoff big_config) (MaxBackoff big_config) \<noteq> MaxBackoff big_config
   \<and> map_option backoff (state_at boom_world (resolve negative_config) 0) = Some (- 1 * Second)
   \<and> map_option backoff (state_at boom_world (resolve negative_config) 1) = Some (- 2 * Second)
   \<and> sint (- 2 * Second) < sint (- 1 * Second)"
  by code_simp

subsection \<open>Termination and cancellation\<close>

text \<open>
  Claim C6. When the loop ends, it ends as \<open>Stopped\<close>, at the top of a pass, at an
  instant at which the context is cancelled, and its last log line is the stop notice;
  no panic ends it. Under a context that is never cancelled the loop does not end,
  whatever the worker does and however often it crashes. (A worker ends its call by
  returning or by panicking, or never; \<open>runtime.Goexit\<close> and \<open>os.Exit\<close> are not
  worker outcomes here.)
\<close>

theorem only_cancellation_stops:
  "(supervise w cfg s = Some (e, t) \<longrightarrow>
      e = Stopped \<and> done_closed w (now t) \<and> cancel_at w \<noteq> None
      \<and> logged t \<noteq> [] \<and> last (logged t) = LogStopped)
   \<and> (cancel_at w' = None \<longrightarrow> supervise w' cfg s = None)"
proof -
  have a: "e = Stopped \<and> done_closed w (now t) \<and> cancel_at w \<noteq> None
      \<and> logged t \<noteq> [] \<and> last (logged t) = LogStopped"
    if run: "supervise w cfg s = Some (e, t)"
  proof -
    have "e = Stopped \<and> done_closed w (now t) \<and> logged t \<noteq> [] \<and> last (logged t) = LogStopped"
      using supervise_Some_aux [OF run] by simp
    moreover from this have "cancel_at w \<noteq> None"
      by (auto simp: done_closed_def split: option.splits)
    ultimately show ?thesis by simp
  qed
  have b: "supervise w' cfg s = None" if "cancel_at w' = None"
    using that by (rule supervise_never)
  show ?thesis using a b by blast
qed

text \<open>
  The always-panicking worker: cancelled after 5 ms the loop stops at 10 ms, after one
  call; never cancelled it runs forever.
\<close>

theorem only_cancellation_stops_witness:
  "supervise cancel_world test_config (init_state test_config)
     = Some (Stopped,
         \<lparr>now = 10000000, backoff = 20 * Millisecond, calls = 1,
          logged = [LogCrashed (Val ''boom''), LogRestarting (10 * Millisecond), LogStopped]\<rparr>)
   \<and> done_closed cancel_world 10000000
   \<and> cancel_at boom_world = None
   \<and> supervise boom_world test_config (init_state test_config) = None"
proof -
  have run: "supervise cancel_world test_config (init_state test_config)
     = Some (Stopped,
         \<lparr>now = 10000000, backoff = 20 * Millisecond, calls = 1,
          logged = [LogCrashed (Val ''boom''), LogRestarting (10 * Millisecond), LogStopped]\<rparr>)"
    by code_simp
  have never: "cancel_at boom_world = None" by (simp add: boom_world_def)
  show ?thesis
    using run never
      only_cancellation_stops [of cancel_world test_config "init_state test_config" Stopped
        "\<lparr>now = 10000000, backoff = 20 * Millisecond, calls = 1,
          logged = [LogCrashed (Val ''boom''), LogRestarting (10 * Millisecond), LogStopped]\<rparr>"
        boom_world]
    by simp
qed

text \<open>
  Claim C7. On the ideal clock of the model: when the context is cancelled during the
  wait of a pass (from the instant the worker's call has ended up to the end of the
  sleep), the loop still sleeps for the whole current backoff, calls the worker no more,
  and stops at the top of the next pass, that is, exactly one backoff after the worker's
  call ended. The time from the cancellation to the stop is positive and at most the
  current backoff.
\<close>

theorem wait_not_interruptible:
  assumes "\<not> done_closed w (now s)"
    and "worker w (calls s) = Some (res, d)"
    and "cancel_at w = Some c"
    and "now s + int d \<le> c" and "c < now s + int d + sint (backoff s)"
  shows "\<exists>t. supervise w cfg s = Some (Stopped, t)
      \<and> now t = now s + int d + sint (backoff s)
      \<and> calls t = Suc (calls s)
      \<and> logged t = snd (guarded_call res (logged s)) @ [LogRestarting (backoff s), LogStopped]
      \<and> 0 < now t - c \<and> now t - c \<le> sint (backoff s)"
proof -
  define s' where "s' = \<lparr>now = Sleep (backoff s) (now s + int d),
            backoff = next_backoff (conv_overflow w) (backoff s) (MaxBackoff cfg),
            calls = Suc (calls s),
            logged = snd (guarded_call res (logged s)) @ [LogRestarting (backoff s)]\<rparr>"
  have body: "loop_body w cfg s = Some (Returned, s')"
    unfolding s'_def using assms(2) by (rule loop_body_worker)
  have pos: "0 < sint (backoff s)" using assms(4,5) by simp
  then have clock: "now s' = now s + int d + sint (backoff s)"
    by (simp add: s'_def Sleep_def)
  then have fired: "done_closed w (now s')"
    using assms(3,5) by (simp add: done_closed_def)
  have "supervise w cfg s = supervise w cfg s'"
    using assms(1) body by (rule supervise_step)
  also have "\<dots> = Some (Stopped, s'\<lparr>logged := logged s' @ [LogStopped]\<rparr>)"
    using fired by (rule supervise_stop)
  finally have run: "supervise w cfg s = Some (Stopped, s'\<lparr>logged := logged s' @ [LogStopped]\<rparr>)" .
  have "now (s'\<lparr>logged := logged s' @ [LogStopped]\<rparr>) = now s + int d + sint (backoff s)"
    using clock by simp
  moreover have "calls (s'\<lparr>logged := logged s' @ [LogStopped]\<rparr>) = Suc (calls s)"
    by (simp add: s'_def)
  moreover have "logged (s'\<lparr>logged := logged s' @ [LogStopped]\<rparr>)
      = snd (guarded_call res (logged s)) @ [LogRestarting (backoff s), LogStopped]"
    by (simp add: s'_def)
  moreover have "0 < now s + int d + sint (backoff s) - c"
    "now s + int d + sint (backoff s) - c \<le> sint (backoff s)"
    using assms(4,5) by simp_all
  ultimately show ?thesis using run by auto
qed

text \<open>Cancelled 5 ms into a first wait of 10 ms, the loop stops at 10 ms.\<close>

theorem wait_not_interruptible_witness:
  "\<not> done_closed cancel_world (now (init_state test_config))
   \<and> worker cancel_world (calls (init_state test_config)) = Some (Panicked (Val ''boom''), 0)
   \<and> cancel_at cancel_world = Some 5000000
   \<and> now (init_state test_config) + int 0 \<le> 5000000
   \<and> 5000000 < now (init_state test_config) + int 0 + sint (backoff (init_state test_config))
   \<and> (\<exists>t. supervise cancel_world test_config (init_state test_config) = Some (Stopped, t)
        \<and> now t = 10000000 \<and> calls t = 1)"
proof -
  have h: "\<not> done_closed cancel_world (now (init_state test_config))"
    "worker cancel_world (calls (init_state test_config)) = Some (Panicked (Val ''boom''), 0)"
    "cancel_at cancel_world = Some 5000000"
    "now (init_state test_config) + int 0 \<le> 5000000"
    "5000000 < now (init_state test_config) + int 0 + sint (backoff (init_state test_config))"
    by (simp_all add: cancel_world_def boom_world_def done_closed_def init_state_def
        test_config_def Millisecond_def Nanosecond_def)
  have b: "sint (backoff (init_state test_config)) = 10000000"
    by (simp add: init_state_def test_config_def Millisecond_def Nanosecond_def)
  have n: "now (init_state test_config) = 0" "calls (init_state test_config) = 0"
    by (simp_all add: init_state_def)
  show ?thesis
    using h wait_not_interruptible [OF h, of test_config] b n
    by auto
qed

subsection \<open>The crash notice\<close>

text \<open>
  Claim C8. One call of the worker through lines 80-88 adds to the log exactly one crash
  notice, carrying the value of the panic, when the worker panicked, and adds nothing
  when it returned; so a crash notice is logged if and only if the call crashed. (For
  \<open>panic(nil)\<close> the value is the \<open>*runtime.PanicNilError\<close> that Go 1.21 and later put
  in its place.)
\<close>

theorem crash_notice_iff_crashed:
  "snd (guarded_call Returned out) = out
   \<and> snd (guarded_call (Panicked v) out)
        = out @ [LogCrashed (if v = Nil then PanicNilError else v)]
   \<and> ((\<exists>r. snd (guarded_call res out) = out @ [LogCrashed r]) \<longleftrightarrow> res \<noteq> Returned)"
proof -
  have a: "snd (guarded_call Returned out) = out" by (simp add: guarded_call_def)
  have b: "snd (guarded_call (Panicked v) out)
      = out @ [LogCrashed (if v = Nil then PanicNilError else v)]" for v
    by (simp add: guarded_call_def)
  have c: "(\<exists>r. snd (guarded_call res out) = out @ [LogCrashed r]) \<longleftrightarrow> res \<noteq> Returned"
  proof (cases res)
    case Returned
    then show ?thesis using a by simp
  next
    case (Panicked p)
    then show ?thesis using b [of p] by simp
  qed
  show ?thesis using a b c by simp
qed

text \<open>A worker that panics with \<open>"boom"\<close>, and one that returns.\<close>

theorem crash_notice_iff_crashed_witness:
  "snd (guarded_call (Panicked (Val ''boom'')) []) = [LogCrashed (Val ''boom'')]
   \<and> snd (guarded_call Returned []) = []
   \<and> (\<exists>r. snd (guarded_call (Panicked (Val ''boom'')) []) = [] @ [LogCrashed r])"
  using crash_notice_iff_crashed [of "[]" "Val ''boom''" "Panicked (Val ''boom'')"]
  by simp

subsection \<open>Defaulting\<close>

text \<open>
  Claim C9. The head of \<open>Start\<close> is a total function of the configuration: a zero
  \<open>MinBackoff\<close> becomes 1 second, a zero \<open>MaxBackoff\<close> 30 seconds, a nil \<open>Logger\<close> the
  process-wide logger, and every other field is kept. Nothing is rejected: a
  configuration with \<open>MinBackoff > MaxBackoff\<close> is kept as it is and the loop is started
  on it, with \<open>MinBackoff\<close> as its first backoff.
\<close>

theorem resolve_defaults:
  "MinBackoff (resolve cfg) = (if MinBackoff cfg = 0 then 1 * Second else MinBackoff cfg)
   \<and> MaxBackoff (resolve cfg) = (if MaxBackoff cfg = 0 then 30 * Second else MaxBackoff cfg)
   \<and> Logger (resolve cfg) = Some (case Logger cfg of None \<Rightarrow> StdLogger | Some l \<Rightarrow> l)
   \<and> sint (1 * Second) = 1000000000 \<and> sint (30 * Second) = 30000000000
   \<and> (MinBackoff cfg \<noteq> 0 \<and> MaxBackoff cfg \<noteq> 0 \<and> sint (MaxBackoff cfg) < sint (MinBackoff cfg)
        \<longrightarrow> MinBackoff (resolve cfg) = MinBackoff cfg \<and> MaxBackoff (resolve cfg) = MaxBackoff cfg
          \<and> Start w cfg = supervise w (resolve cfg) (init_state (resolve cfg))
          \<and> backoff (init_state (resolve cfg)) = MinBackoff cfg)"
proof -
  have a: "MinBackoff (resolve cfg) = (if MinBackoff cfg = 0 then 1 * Second else MinBackoff cfg)"
    by (simp add: resolve_def Let_def)
  have b: "MaxBackoff (resolve cfg) = (if MaxBackoff cfg = 0 then 30 * Second else MaxBackoff cfg)"
    by (simp add: resolve_def Let_def)
  have c: "Logger (resolve cfg) = Some (case Logger cfg of None \<Rightarrow> StdLogger | Some l \<Rightarrow> l)"
    by (simp add: resolve_def Let_def split: option.splits)
  have d: "sint (1 * Second) = 1000000000" "sint (30 * Second) = 30000000000"
    by (simp_all add: Second_def Millisecond_def Nanosecond_def)
  have e: "Start w cfg = supervise w (resolve cfg) (init_state (resolve cfg))"
    by (simp add: Start_def Let_def)
  have f: "backoff (init_state (resolve cfg)) = MinBackoff (resolve cfg)"
    by (simp add: init_state_def)
  show ?thesis using a b c d e f by simp
qed

text \<open>The configuration (10 s, 5 s) is unchanged; the zero configuration becomes the default one.\<close>

theorem resolve_defaults_witness:
  "MinBackoff inverted_config \<noteq> 0 \<and> MaxBackoff inverted_config \<noteq> 0
   \<and> sint (MaxBackoff inverted_config) < sint (MinBackoff inverted_config)
   \<and> resolve inverted_config = inverted_config
   \<and> resolve \<lparr>MinBackoff = 0, MaxBackoff = 0, Logger = None\<rparr> = DefaultConfig"
proof -
  have h: "MinBackoff inverted_config \<noteq> 0" "MaxBackoff inverted_config \<noteq> 0"
    "sint (MaxBackoff inverted_config) < sint (MinBackoff inverted_config)"
    by (simp_all add: inverted_config_def Second_def Millisecond_def Nanosecond_def)
  have l: "Logger inverted_config = Some StdLogger" by (simp add: inverted_config_def)
  have z: "resolve \<lparr>MinBackoff = 0, MaxBackoff = 0, Logger = None\<rparr> = DefaultConfig"
    using resolve_defaults [of "\<lparr>MinBackoff = 0, MaxBackoff = 0, Logger = None\<rparr>" boom_world]
    by (simp add: DefaultConfig_def)
  have "resolve inverted_config = inverted_config"
    using h l resolve_defaults [of inverted_config boom_world]
    by (simp add: Config.equality)
  then show ?thesis using h z by simp
qed

subsection \<open>Negative durations\<close>

text \<open>
  Claim C10. The defaulting compares with zero only. A negative \<open>MinBackoff\<close> is kept,
  it is the first backoff of the loop, \<open>time.Sleep\<close> returns at once on it, and the first
  pass ends at the instant the worker's call ended. A negative \<open>MaxBackoff\<close> is kept as
  well, and then the backoff is negative at the top of every pass after the first, so
  no restart waits at all.
\<close>

theorem negative_backoff_kept:
  "(sint (MinBackoff cfg) < 0 \<longrightarrow>
      MinBackoff (resolve cfg) = MinBackoff cfg
      \<and> backoff (init_state (resolve cfg)) = MinBackoff cfg
      \<and> Sleep (backoff (init_state (resolve cfg))) t = t
      \<and> (loop_body w (resolve cfg) (init_state (resolve cfg)) = Some (r, s') \<longrightarrow>
            (\<exists>res d. worker w 0 = Some (res, d) \<and> now s' = int d)))
   \<and> (sint (MaxBackoff cfg) < 0 \<longrightarrow>
      MaxBackoff (resolve cfg) = MaxBackoff cfg
      \<and> (state_at w (resolve cfg) (Suc n) = Some s \<longrightarrow>
            sint (backoff s) < 0 \<and> Sleep (backoff s) t = t))"
proof -
  have a: "MinBackoff (resolve cfg) = MinBackoff cfg
      \<and> backoff (init_state (resolve cfg)) = MinBackoff cfg
      \<and> Sleep (backoff (init_state (resolve cfg))) t = t
      \<and> (loop_body w (resolve cfg) (init_state (resolve cfg)) = Some (r, s') \<longrightarrow>
            (\<exists>res d. worker w 0 = Some (res, d) \<and> now s' = int d))"
    if neg: "sint (MinBackoff cfg) < 0"
  proof -
    have nz: "MinBackoff cfg \<noteq> 0" using neg by auto
    then have keep: "MinBackoff (resolve cfg) = MinBackoff cfg"
      by (simp add: resolve_def Let_def)
    then have b0: "backoff (init_state (resolve cfg)) = MinBackoff cfg"
      by (simp add: init_state_def)
    then have sl: "Sleep (backoff (init_state (resolve cfg))) u = u" for u
      using neg by (simp add: Sleep_def)
    have "\<exists>res d. worker w 0 = Some (res, d) \<and> now s' = int d"
      if body: "loop_body w (resolve cfg) (init_state (resolve cfg)) = Some (r, s')"
    proof -
      obtain res d where "worker w (calls (init_state (resolve cfg))) = Some (res, d)"
        "now s' = Sleep (backoff (init_state (resolve cfg))) (now (init_state (resolve cfg)) + int d)"
        using loop_body_Some [OF body] by blast
      then show ?thesis using sl by (simp add: init_state_def)
    qed
    then show ?thesis using keep b0 sl by blast
  qed
  have b: "MaxBackoff (resolve cfg) = MaxBackoff cfg
      \<and> (state_at w (resolve cfg) (Suc n) = Some s \<longrightarrow>
            sint (backoff s) < 0 \<and> Sleep (backoff s) t = t)"
    if neg: "sint (MaxBackoff cfg) < 0"
  proof -
    have nz: "MaxBackoff cfg \<noteq> 0" using neg by auto
    then have keep: "MaxBackoff (resolve cfg) = MaxBackoff cfg"
      by (simp add: resolve_def Let_def)
    have "sint (backoff s) < 0 \<and> Sleep (backoff s) t = t"
      if st: "state_at w (resolve cfg) (Suc n) = Some s"
    proof -
      obtain s0 where "state_at w (resolve cfg) n = Some s0"
        "backoff s = next_backoff (conv_overflow w) (backoff s0) (MaxBackoff (resolve cfg))"
        using state_at_Suc_backoff [OF st] by blast
      then have "sint (backoff s) < 0"
        using neg keep next_backoff_negative [of "MaxBackoff cfg" "conv_overflow w" "backoff s0"]
        by simp
      then show ?thesis by (simp add: Sleep_def)
    qed
    then show ?thesis using keep by blast
  qed
  show ?thesis using a b by blast
qed

text \<open>Bounds of -1 s and -5 s: the second pass starts at instant 0 with a backoff of -5 s.\<close>

theorem negative_backoff_kept_witness:
  "sint (MinBackoff all_negative_config) < 0 \<and> sint (MaxBackoff all_negative_config) < 0
   \<and> resolve all_negative_config = all_negative_config\<lparr>Logger := Some StdLogger\<rparr>
   \<and> map_option backoff (state_at boom_world (resolve all_negative_config) (Suc 0))
       = Some (- 5 * Second)
   \<and> sint (- 5 * Second) < 0
   \<and> map_option now (state_at boom_world (resolve all_negative_config) (Suc 0)) = Some 0"
proof -
  have h: "sint (MinBackoff all_negative_config) < 0" "sint (MaxBackoff all_negative_config) < 0"
    by (simp_all add: all_negative_config_def Second_def Millisecond_def Nanosecond_def)
  have r: "resolve all_negative_config = all_negative_config\<lparr>Logger := Some StdLogger\<rparr>"
    by code_simp
  have st: "state_at boom_world (resolve all_negative_config) (Suc 0)
      = Some \<lparr>now = 0, backoff = - 5 * Second, calls = 1,
          logged = [LogCrashed (Val ''boom''), LogRestarting (- 1 * Second)]\<rparr>"
    by code_simp
  have body: "loop_body boom_world (resolve all_negative_config)
        (init_state (resolve all_negative_config))
      = Some (Returned,
          \<lparr>now = 0, backoff = - 5 * Second, calls = 1,
            logged = [LogCrashed (Val ''boom''), LogRestarting (- 1 * Second)]\<rparr>)"
    by code_simp
  show ?thesis
    using h r st body
      negative_backoff_kept [of all_negative_config 0 boom_world Returned
        "\<lparr>now = 0, backoff = - 5 * Second, calls = 1,
          logged = [LogCrashed (Val ''boom''), LogRestarting (- 1 * Second)]\<rparr>" 0
        "\<lparr>now = 0, backoff = - 5 * Second, calls = 1,
          logged = [LogCrashed (Val ''boom''), LogRestarting (- 1 * Second)]\<rparr>"]
    by simp
qed

end
